theory Spec2Isabelle
  imports Complex_Main
begin

section \<open>Data model (src/models/email.py)\<close>

text \<open>
  Python strings are sequences of code points; here a \<open>string\<close> holds one element per
  code point, so \<open>take\<close> and \<open>length\<close> count what the slice \<^verbatim>\<open>body[:1000]\<close> and
  \<^verbatim>\<open>len\<close> count. A \<^verbatim>\<open>datetime\<close> is held as the text its
  \<^verbatim>\<open>isoformat()\<close> prints.
\<close>

subsection \<open>Python floats\<close>

text \<open>
  A Python \<^verbatim>\<open>float\<close> is an IEEE 754 binary64 number: a finite value, one of the
  two infinities, or NaN. A finite value is held as the real number it denotes (the
  sign of a zero is dropped: no operation used here tells the two zeros apart).
\<close>

datatype pyfloat = Fin real | PInf | NInf | NaN

text \<open>\<open>pow2 e\<close> is 2 to the power \<open>e\<close>, for an integer \<open>e\<close> of either sign.\<close>

definition pow2 :: "int \<Rightarrow> real" where
  "pow2 e = (if 0 \<le> e then 2 ^ nat e else 1 / 2 ^ nat (- e))"

text \<open>Rounding to the nearest integer, a tie going to the even neighbour.\<close>

definition round_half_even :: "real \<Rightarrow> int" where
  "round_half_even y =
     (let f = \<lfloor>y\<rfloor> in
      if y - of_int f < 1 / 2 then f
      else if 1 / 2 < y - of_int f then f + 1
      else if even f then f else f + 1)"

text \<open>
  The spacing of the binary64 numbers around \<open>x\<close>: 53 significant bits in the binade
  of \<open>x\<close>, and the fixed spacing \<open>2^-1074\<close> of the subnormal range below \<open>2^-1022\<close>.
\<close>

definition quantum :: "real \<Rightarrow> real" where
  "quantum x = pow2 (max (\<lfloor>log 2 \<bar>x\<bar>\<rfloor> - 52) (- 1074))"

definition overflow_threshold :: real where
  "overflow_threshold = 2 ^ 1024"

text \<open>
  The binary64 result of an operation whose exact result is \<open>x\<close>, in the default
  rounding mode (to nearest, ties to even): \<open>x\<close> is rounded to a multiple of the
  spacing, and a rounded value of magnitude \<open>2^1024\<close> or more is an infinity.
\<close>

definition rne :: "real \<Rightarrow> pyfloat" where
  "rne x =
     (if x = 0 then Fin 0
      else
        (let y = quantum x * of_int (round_half_even (x / quantum x)) in
         if overflow_threshold \<le> y then PInf
         else if y \<le> - overflow_threshold then NInf
         else Fin y))"

text \<open>
  The three float operations of \<^verbatim>\<open>find_similar_emails\<close>:
  \<^verbatim>\<open>distance / 2\<close>, \<^verbatim>\<open>1 - x\<close> and \<^verbatim>\<open>similarity >= threshold\<close>. The integers 1 and
  2 convert to floats exactly. A comparison with a NaN is false.
\<close>

definition float_half :: "pyfloat \<Rightarrow> pyfloat" where
  "float_half a = (case a of Fin x \<Rightarrow> rne (x / 2) | PInf \<Rightarrow> PInf | NInf \<Rightarrow> NInf | NaN \<Rightarrow> NaN)"

definition float_one_minus :: "pyfloat \<Rightarrow> pyfloat" where
  "float_one_minus a =
     (case a of Fin x \<Rightarrow> rne (1 - x) | PInf \<Rightarrow> NInf | NInf \<Rightarrow> PInf | NaN \<Rightarrow> NaN)"

fun float_ge :: "pyfloat \<Rightarrow> pyfloat \<Rightarrow> bool" where
  "float_ge NaN b = False"
| "float_ge a NaN = False"
| "float_ge PInf b = True"
| "float_ge a NInf = True"
| "float_ge NInf b = False"
| "float_ge a PInf = False"
| "float_ge (Fin x) (Fin y) = (y \<le> x)"

text \<open>The default \<^verbatim>\<open>threshold: float = 0.85\<close>: the float the literal denotes.\<close>

definition default_threshold :: pyfloat where
  "default_threshold = rne 0.85"

subsection \<open>Emails and groups\<close>

type_synonym datetime = string

definition isoformat :: "datetime \<Rightarrow> string" where
  "isoformat d = d"

text \<open>The fields of \<^verbatim>\<open>Email\<close> that the RAG service reads.\<close>

record email =
  id_email :: string
  sender :: string
  subject :: string
  body :: string
  date :: datetime

text \<open>\<^verbatim>\<open>DuplicateEmailGroup\<close>; its \<^verbatim>\<open>subject\<close> field is \<open>subject_group\<close> here.\<close>

record duplicate_email_group =
  primary_email_id :: string
  duplicate_ids :: "string list"
  similarity_scores :: "pyfloat list"
  subject_group :: string
  count :: int

section \<open>The libraries behind the service\<close>

text \<open>
  \<^verbatim>\<open>RAGService\<close> calls two third-party libraries: a sentence-embedding model
  (\<^verbatim>\<open>self.embedding_model.encode\<close>) and a ChromaDB client with one
  collection. Their code is not part of the repository, so they are parameters of
  the model: a record of the operations the service calls, over a type \<open>'w\<close> of store
  contents and a type \<open>'h\<close> of collection handles. Every operation may raise; a raised
  exception is a value \<open>Inl x\<close>.
\<close>

datatype exc = IndexError | Raised string

text \<open>
  An embedding. The service hands embeddings from the encoder to the store and never
  computes with them; a component is held as the real number it denotes.
\<close>

type_synonym vector = "real list"

text \<open>The dictionary passed as \<^verbatim>\<open>metadatas=[{...}]\<close> by \<^verbatim>\<open>add_email\<close>.\<close>

record metadata =
  md_email_id :: string
  md_subject :: string
  md_sender :: string
  md_date :: string

text \<open>
  What \<^verbatim>\<open>collection.query\<close> returns, restricted to the two keys that are read:
  one inner list per query embedding.
\<close>

record query_result =
  ids :: "string list list"
  distances :: "pyfloat list list"

text \<open>
  \<open>coll_get\<close> is \<^verbatim>\<open>collection.get(ids=[i])\<close>: the document and metadata stored under an
  id. The service never calls it; it is the observation through which a statement
  can speak of the stored text.
\<close>

record ('w, 'h) backend =
  encode :: "string \<Rightarrow> exc + vector"
  coll_add :: "'w \<Rightarrow> 'h \<Rightarrow> vector \<Rightarrow> string \<Rightarrow> metadata \<Rightarrow> string \<Rightarrow> exc + 'w"
  coll_query :: "'w \<Rightarrow> 'h \<Rightarrow> vector \<Rightarrow> int \<Rightarrow> exc + query_result"
  coll_count :: "'w \<Rightarrow> 'h \<Rightarrow> exc + int"
  coll_get :: "'w \<Rightarrow> 'h \<Rightarrow> string \<Rightarrow> (string \<times> metadata) option"
  delete_collection :: "'w \<Rightarrow> string \<Rightarrow> exc + 'w"
  create_collection :: "'w \<Rightarrow> string \<Rightarrow> exc + 'w \<times> 'h"

text \<open>
  The mutable part of a \<^verbatim>\<open>RAGService\<close> object: what the client's store holds
  (\<open>world\<close>) and the handle bound to \<^verbatim>\<open>self.collection\<close>.
\<close>

record ('w, 'h) rag_service =
  world :: 'w
  collection :: 'h

section \<open>RAGService (src/services/rag_service.py)\<close>

text \<open>
  Each method is a \<^verbatim>\<open>try\<close> block with an \<^verbatim>\<open>except Exception\<close> handler that
  logs and returns a default. The block is the function named \<open>..._try\<close>, with result
  type \<open>exc + _\<close>; the method applies the handler to it. Logging has no effect on the
  results and is left out.
\<close>

text \<open>\<^verbatim>\<open>f"{email.subject}\n\n{email.body[:1000]}"\<close>\<close>

definition embedding_text :: "email \<Rightarrow> string" where
  "embedding_text e = subject e @ [CHR 0x0A, CHR 0x0A] @ take 1000 (body e)"

definition metadata_of :: "email \<Rightarrow> metadata" where
  "metadata_of e =
     \<lparr>md_email_id = id_email e, md_subject = subject e, md_sender = sender e,
      md_date = isoformat (date e)\<rparr>"

definition add_email_try ::
  "('w, 'h) backend \<Rightarrow> ('w, 'h) rag_service \<Rightarrow> email \<Rightarrow> exc + ('w, 'h) rag_service" where
  "add_email_try be s e =
     (case encode be (embedding_text e) of
        Inl x \<Rightarrow> Inl x
      | Inr embedding \<Rightarrow>
          (case coll_add be (world s) (collection s) embedding (embedding_text e)
                  (metadata_of e) (id_email e) of
             Inl x \<Rightarrow> Inl x
           | Inr w \<Rightarrow> Inr (s\<lparr>world := w\<rparr>)))"

definition add_email ::
  "('w, 'h) backend \<Rightarrow> ('w, 'h) rag_service \<Rightarrow> email \<Rightarrow> ('w, 'h) rag_service" where
  "add_email be s e = (case add_email_try be s e of Inl x \<Rightarrow> s | Inr s' \<Rightarrow> s')"

text \<open>Python's \<^verbatim>\<open>xs[i]\<close> for \<open>i \<ge> 0\<close>: out of range raises \<^verbatim>\<open>IndexError\<close>.\<close>

definition index :: "'a list \<Rightarrow> nat \<Rightarrow> exc + 'a" where
  "index xs i = (if i < length xs then Inr (xs ! i) else Inl IndexError)"

text \<open>
  The loop \<^verbatim>\<open>for i, email_id in enumerate(results["ids"][0])\<close> of
  \<^verbatim>\<open>find_similar_emails\<close>: \<open>i\<close> is the running index, the list holds the ids still
  to visit and \<open>similar_emails\<close> is the list built so far.
\<close>

fun scan_results ::
  "string \<Rightarrow> pyfloat \<Rightarrow> pyfloat list list \<Rightarrow> nat \<Rightarrow> string list
   \<Rightarrow> (string \<times> pyfloat) list \<Rightarrow> exc + (string \<times> pyfloat) list" where
  "scan_results own threshold dists i [] similar_emails = Inr similar_emails"
| "scan_results own threshold dists i (email_id # rest) similar_emails =
     (if email_id = own then scan_results own threshold dists (Suc i) rest similar_emails
      else
        (case index dists 0 of
           Inl x \<Rightarrow> Inl x
         | Inr row \<Rightarrow>
             (case index row i of
                Inl x \<Rightarrow> Inl x
              | Inr distance \<Rightarrow>
                  (let similarity = float_one_minus (float_half distance) in
                   if float_ge similarity threshold
                   then scan_results own threshold dists (Suc i) rest
                          (similar_emails @ [(email_id, similarity)])
                   else scan_results own threshold dists (Suc i) rest similar_emails))))"

definition find_similar_emails_try ::
  "('w, 'h) backend \<Rightarrow> ('w, 'h) rag_service \<Rightarrow> email \<Rightarrow> pyfloat \<Rightarrow> int
   \<Rightarrow> exc + (string \<times> pyfloat) list" where
  "find_similar_emails_try be s e threshold limit =
     (case encode be (embedding_text e) of
        Inl x \<Rightarrow> Inl x
      | Inr embedding \<Rightarrow>
          (case coll_query be (world s) (collection s) embedding limit of
             Inl x \<Rightarrow> Inl x
           | Inr results \<Rightarrow>
               (if ids results \<noteq> [] \<and> hd (ids results) \<noteq> []
                then scan_results (id_email e) threshold (distances results) 0
                       (hd (ids results)) []
                else Inr [])))"

definition find_similar_emails ::
  "('w, 'h) backend \<Rightarrow> ('w, 'h) rag_service \<Rightarrow> email \<Rightarrow> pyfloat \<Rightarrow> int
   \<Rightarrow> (string \<times> pyfloat) list" where
  "find_similar_emails be s e threshold limit =
     (case find_similar_emails_try be s e threshold limit of Inl x \<Rightarrow> [] | Inr r \<Rightarrow> r)"

text \<open>
  The loop of \<^verbatim>\<open>detect_duplicates\<close>, with its two variables
  \<^verbatim>\<open>duplicate_groups\<close> and \<^verbatim>\<open>processed_ids\<close>. The call
  \<^verbatim>\<open>find_similar_emails(email, threshold=threshold)\<close> takes the default limit 10.
\<close>

definition make_group :: "email \<Rightarrow> (string \<times> pyfloat) list \<Rightarrow> duplicate_email_group" where
  "make_group e similar =
     \<lparr>primary_email_id = id_email e,
      duplicate_ids = map fst similar,
      similarity_scores = map snd similar,
      subject_group = subject e,
      count = int (length (map fst similar)) + 1\<rparr>"

fun detect_loop ::
  "('w, 'h) backend \<Rightarrow> ('w, 'h) rag_service \<Rightarrow> pyfloat \<Rightarrow> email list
   \<Rightarrow> duplicate_email_group list \<Rightarrow> string set \<Rightarrow> duplicate_email_group list" where
  "detect_loop be s threshold [] duplicate_groups processed_ids = duplicate_groups"
| "detect_loop be s threshold (e # emails) duplicate_groups processed_ids =
     (if id_email e \<in> processed_ids
      then detect_loop be s threshold emails duplicate_groups processed_ids
      else
        (let similar = find_similar_emails be s e threshold 10 in
         if similar \<noteq> []
         then detect_loop be s threshold emails
                (duplicate_groups @ [make_group e similar])
                (insert (id_email e) processed_ids \<union> set (map fst similar))
         else detect_loop be s threshold emails duplicate_groups processed_ids))"

text \<open>
  Nothing in the loop raises (\<^verbatim>\<open>find_similar_emails\<close> has its own handler, the
  group is built from values of the declared field types), so the handler of
  \<^verbatim>\<open>detect_duplicates\<close> is never entered for a list of emails.
\<close>

definition detect_duplicates ::
  "('w, 'h) backend \<Rightarrow> ('w, 'h) rag_service \<Rightarrow> email list \<Rightarrow> pyfloat
   \<Rightarrow> duplicate_email_group list" where
  "detect_duplicates be s emails threshold = detect_loop be s threshold emails [] {}"

definition get_email_count :: "('w, 'h) backend \<Rightarrow> ('w, 'h) rag_service \<Rightarrow> int" where
  "get_email_count be s =
     (case coll_count be (world s) (collection s) of Inl x \<Rightarrow> 0 | Inr n \<Rightarrow> n)"



section \<open>Vocabulary of the statements\<close>

text \<open>Every id a group holds: its primary, then its members.\<close>

definition group_ids :: "duplicate_email_group \<Rightarrow> string list" where
  "group_ids g = primary_email_id g # duplicate_ids g"

text \<open>
  An embedding or store operation of \<^verbatim>\<open>add_email\<close> raises: the encoder on the
  text, or \<^verbatim>\<open>collection.add\<close> on the embedding it returned.
\<close>

definition add_fails :: "('w, 'h) backend \<Rightarrow> ('w, 'h) rag_service \<Rightarrow> email \<Rightarrow> bool" where
  "add_fails be s e =
     (case encode be (embedding_text e) of
        Inl x \<Rightarrow> True
      | Inr v \<Rightarrow> isl (coll_add be (world s) (collection s) v (embedding_text e)
                        (metadata_of e) (id_email e)))"

text \<open>
  An embedding or store operation of \<^verbatim>\<open>find_similar_emails\<close> raises: the
  encoder on the text, or \<^verbatim>\<open>collection.query\<close> on the embedding it returned.
\<close>

definition find_fails ::
  "('w, 'h) backend \<Rightarrow> ('w, 'h) rag_service \<Rightarrow> email \<Rightarrow> int \<Rightarrow> bool" where
  "find_fails be s e limit =
     (case encode be (embedding_text e) of
        Inl x \<Rightarrow> True
      | Inr v \<Rightarrow> isl (coll_query be (world s) (collection s) v limit))"

text \<open>
  The distances a query reports are distances: none is negative and none is a NaN.
  This is what the claim about scores calls the match's L2 distance.
\<close>

definition float_nonneg :: "pyfloat \<Rightarrow> bool" where
  "float_nonneg a = (case a of Fin x \<Rightarrow> 0 \<le> x | PInf \<Rightarrow> True | NInf \<Rightarrow> False | NaN \<Rightarrow> False)"

definition distances_nonneg :: "('w, 'h) backend \<Rightarrow> bool" where
  "distances_nonneg be \<longleftrightarrow>
     (\<forall>w h v n r. coll_query be w h v n = Inr r \<longrightarrow>
        (\<forall>row \<in> set (distances r). \<forall>d \<in> set row. float_nonneg d))"

text \<open>
  A store whose \<^verbatim>\<open>add\<close> keeps what it has, as the \<^verbatim>\<open>add\<close> of a ChromaDB
  collection does: an add under an id that is present leaves the document and the
  metadata of that id and the count as they were, and an add under a new id stores
  the document and the metadata it is given.
\<close>

definition add_keeps :: "('w, 'h) backend \<Rightarrow> bool" where
  "add_keeps be \<longleftrightarrow>
     (\<forall>w h v d m i w'. coll_add be w h v d m i = Inr w' \<longrightarrow>
        (case coll_get be w h i of
           None \<Rightarrow> coll_get be w' h i = Some (d, m)
         | Some x \<Rightarrow> coll_get be w' h i = Some x \<and> coll_count be w' h = coll_count be w h))"


text \<open>
  The invariant of the loop of \<^verbatim>\<open>detect_duplicates\<close>, read off the groups:
  starting from the processed ids \<open>P\<close>, each group's primary is new, and the group's
  ids are processed from then on.
\<close>

fun primaries_fresh :: "string set \<Rightarrow> duplicate_email_group list \<Rightarrow> bool" where
  "primaries_fresh P [] = True"
| "primaries_fresh P (g # gs) =
     (primary_email_id g \<notin> P \<and> primaries_fresh (P \<union> set (group_ids g)) gs)"

section \<open>An in-memory store\<close>

text \<open>
  A small instance of the backend, on which the statements below are run. The store
  is the list of its records in insertion order; a query ranks every record by
  squared Euclidean distance to the query embedding, nearest first, and returns the
  first \<open>n\<close> with their distances as floats. \<open>mem_add\<close> leaves a record alone when
  its id is already present, which is what ChromaDB's \<^verbatim>\<open>Collection.add\<close> does
  with an existing id (the replacing call there is \<^verbatim>\<open>upsert\<close>).
\<close>

type_synonym mem_record = "string \<times> vector \<times> string \<times> metadata"

definition l2 :: "vector \<Rightarrow> vector \<Rightarrow> real" where
  "l2 u v = sum_list (map (\<lambda>(a, b). (a - b) * (a - b)) (zip u v))"

definition mem_encode :: "string \<Rightarrow> exc + vector" where
  "mem_encode t = Inr [real (length t) / 2]"

definition mem_add ::
  "mem_record list \<Rightarrow> unit \<Rightarrow> vector \<Rightarrow> string \<Rightarrow> metadata \<Rightarrow> string
   \<Rightarrow> exc + mem_record list" where
  "mem_add w h v d m i = Inr (if i \<in> set (map fst w) then w else w @ [(i, v, d, m)])"

definition mem_query ::
  "mem_record list \<Rightarrow> unit \<Rightarrow> vector \<Rightarrow> int \<Rightarrow> exc + query_result" where
  "mem_query w h q n =
     (let hits = take (nat n) (sort_key snd (map (\<lambda>(i, v, d, m). (i, l2 q v)) w))
      in Inr \<lparr>ids = [map fst hits], distances = [map (\<lambda>hit. rne (snd hit)) hits]\<rparr>)"

definition mem_count :: "mem_record list \<Rightarrow> unit \<Rightarrow> exc + int" where
  "mem_count w h = Inr (int (length w))"

definition mem_get :: "mem_record list \<Rightarrow> unit \<Rightarrow> string \<Rightarrow> (string \<times> metadata) option" where
  "mem_get w h i = map_option (\<lambda>(v, d, m). (d, m)) (map_of w i)"

definition mem_backend :: "(mem_record list, unit) backend" where
  "mem_backend =
     \<lparr>encode = mem_encode, coll_add = mem_add, coll_query = mem_query,
      coll_count = mem_count, coll_get = mem_get,
      delete_collection = (\<lambda>w n. Inr []),
      create_collection = (\<lambda>w n. Inr ([], ()))\<rparr>"


text \<open>The same store behind an encoder that raises on a text without content.\<close>

definition picky_encode :: "string \<Rightarrow> exc + vector" where
  "picky_encode t =
     (if t = [CHR 0x0A, CHR 0x0A] then Inl (Raised ''empty input'') else mem_encode t)"

definition picky_backend :: "(mem_record list, unit) backend" where
  "picky_backend = mem_backend\<lparr>encode := picky_encode\<rparr>"

definition mail :: "string \<Rightarrow> string \<Rightarrow> string \<Rightarrow> email" where
  "mail i subj txt =
     \<lparr>id_email = i, sender = ''a@example.com'', subject = subj, body = txt,
      date = ''2024-01-01T12:00:00+00:00''\<rparr>"

text \<open>
  Three stored emails whose embeddings lie on a line at 1.5, 2 and 2.5: the middle
  one is within the default threshold 0.85 of both ends (squared distance 0.25,
  score 0.875), the ends are not within it of each other (squared distance 1,
  score 0.5). All these numbers are binary64 numbers, and so no operation on them
  rounds.
\<close>

definition mail_a :: email where
  "mail_a = mail ''A'' ''a'' []"

definition mail_b :: email where
  "mail_b = mail ''B'' ''ab'' []"

definition mail_c :: email where
  "mail_c = mail ''C'' ''abc'' []"

text \<open>An email with empty subject and body: its text is the two newlines alone.\<close>

definition mail_blank :: email where
  "mail_blank = mail ''D'' [] []"

text \<open>A second email under the id of \<open>mail_a\<close>, with another subject and body.\<close>

definition mail_a2 :: email where
  "mail_a2 = mail ''A'' ''a, second version'' ''new body''"

text \<open>An email whose subject has 2000 characters.\<close>

definition mail_long :: email where
  "mail_long = mail ''L'' (replicate 2000 CHR ''s'') ''short body''"

definition empty_service :: "(mem_record list, unit) rag_service" where
  "empty_service = \<lparr>world = [], collection = ()\<rparr>"

text \<open>
  A store with one email \<open>N\<close> whose embedding is \<open>2^-30\<close> away from that of \<open>mail_a\<close>:
  a squared distance of \<open>2^-60\<close>.
\<close>

definition near_service :: "(mem_record list, unit) rag_service" where
  "near_service =
     \<lparr>world = [(''N'', [3 / 2 + 1 / 2 ^ 30], ''n'', metadata_of (mail ''N'' ''n'' []))],
      collection = ()\<rparr>"

definition line_service :: "(mem_record list, unit) rag_service" where
  "line_service =
     add_email mem_backend
       (add_email mem_backend (add_email mem_backend empty_service mail_a) mail_b) mail_c"

section \<open>Lemmas about floats\<close>

lemma pow2_powr: "pow2 e = 2 powr (real_of_int e)"
  by (simp add: pow2_def powr_real_of_int inverse_eq_divide)

lemma pow2_pos: "0 < pow2 e"
  by (simp add: pow2_powr)

lemma pow2_add: "pow2 (a + b) = pow2 a * pow2 b"
  by (simp add: pow2_powr powr_add)

lemma pow2_mono: "a \<le> b \<Longrightarrow> pow2 a \<le> pow2 b"
  by (simp add: pow2_powr)

lemma round_half_even_le_int: "y \<le> of_int n \<Longrightarrow> round_half_even y \<le> n"
proof -
  assume le: "y \<le> of_int n"
  show ?thesis
  proof (cases "y = of_int n")
    case True
    then show ?thesis by (simp add: round_half_even_def)
  next
    case False
    with le have "y < of_int n" by simp
    then have "\<lfloor>y\<rfloor> < n" by (simp add: floor_less_iff)
    then show ?thesis by (auto simp: round_half_even_def Let_def)
  qed
qed

lemma round_half_even_ge_int: "of_int n \<le> y \<Longrightarrow> n \<le> round_half_even y"
proof -
  assume "of_int n \<le> y"
  then have "n \<le> \<lfloor>y\<rfloor>" by (simp add: le_floor_iff)
  then show ?thesis by (auto simp: round_half_even_def Let_def)
qed

lemma quantum_pos: "0 < quantum x"
  by (simp add: quantum_def pow2_pos)

lemma overflow_threshold_gt: "1 < overflow_threshold" "pow2 1023 < overflow_threshold"
  by (simp_all add: overflow_threshold_def pow2_def)

text \<open>Rounding keeps the sign: the result of a non-negative number is not negative.\<close>

lemma rne_nonneg:
  assumes "0 \<le> x"
  shows "rne x = PInf \<or> (\<exists>y\<ge>0. rne x = Fin y)"
proof -
  let ?y = "quantum x * of_int (round_half_even (x / quantum x))"
  from assms have "of_int 0 \<le> x / quantum x"
    using quantum_pos [of x] by simp
  then have "0 \<le> round_half_even (x / quantum x)"
    by (rule round_half_even_ge_int)
  then have y: "0 \<le> ?y"
    using quantum_pos [of x] by simp
  then have "\<not> ?y \<le> - overflow_threshold"
    using overflow_threshold_gt(1) by linarith
  with y show ?thesis
    by (cases "x = 0") (auto simp: rne_def Let_def)
qed

text \<open>Rounding does not cross 1, which is a binary64 number.\<close>

lemma rne_le_one:
  assumes "x \<le> 1"
  shows "rne x = NInf \<or> (\<exists>y\<le>1. rne x = Fin y)"
proof -
  let ?q = "quantum x"
  let ?y = "?q * of_int (round_half_even (x / ?q))"
  have y: "?y \<le> 1"
  proof (cases "x \<le> 0")
    case True
    then have "x / ?q \<le> of_int 0"
      using quantum_pos [of x] by (simp add: divide_le_0_iff)
    then have "round_half_even (x / ?q) \<le> 0"
      by (rule round_half_even_le_int)
    then have "?y \<le> 0"
      using quantum_pos [of x] by (simp add: mult_le_0_iff)
    then show ?thesis by simp
  next
    case False
    with assms have x: "0 < x" "x \<le> 1" by simp_all
    define e where "e = max (\<lfloor>log 2 \<bar>x\<bar>\<rfloor> - 52) (- 1074)"
    from x have "log 2 \<bar>x\<bar> \<le> 0" by simp
    then have "\<lfloor>log 2 \<bar>x\<bar>\<rfloor> \<le> 0" by (simp add: floor_le_iff)
    then have e: "e < 0" by (simp add: e_def)
    have q: "?q = pow2 e" by (simp add: quantum_def e_def)
    define N :: int where "N = 2 ^ nat (- e)"
    from e have qN: "?q * of_int N = 1" by (simp add: q N_def pow2_def)
    have "x / ?q = x * (?q * of_int N) / ?q" by (simp add: qN)
    also have "\<dots> = x * of_int N"
      using quantum_pos [of x] by simp
    finally have "x / ?q = x * of_int N" .
    moreover have "0 \<le> real_of_int N" by (simp add: N_def)
    ultimately have "x / ?q \<le> of_int N"
      using x(2) mult_right_mono [of x 1 "real_of_int N"] by simp
    then have "round_half_even (x / ?q) \<le> N"
      by (rule round_half_even_le_int)
    then have "?y \<le> ?q * of_int N"
      using quantum_pos [of x] by simp
    with qN show ?thesis by simp
  qed
  then have "\<not> overflow_threshold \<le> ?y"
    using overflow_threshold_gt(1) by linarith
  with y show ?thesis
    by (cases "x = 0") (auto simp: rne_def Let_def)
qed

lemma quantum_in_binade:
  assumes "pow2 k \<le> \<bar>x\<bar>" "\<bar>x\<bar> < pow2 (k + 1)" "- 1022 \<le> k"
  shows "quantum x = pow2 (k - 52)"
proof -
  from assms(1) have pos: "0 < \<bar>x\<bar>"
    using pow2_pos [of k] by linarith
  from assms(1,2) have "\<lfloor>log 2 \<bar>x\<bar>\<rfloor> = k"
    using pos by (simp add: floor_log_eq_powr_iff pow2_powr)
  moreover from assms(3) have "max (k - 52) (- 1074) = k - 52" by simp
  ultimately show ?thesis
    by (simp add: quantum_def)
qed

text \<open>The rounding of a number in the binade of \<open>2^k\<close>, in the normal range.\<close>

lemma rne_in_binade:
  assumes "pow2 k \<le> \<bar>x\<bar>" "\<bar>x\<bar> < pow2 (k + 1)" "- 1022 \<le> k" "k \<le> 1022"
  shows "rne x = Fin (pow2 (k - 52) * of_int (round_half_even (x / pow2 (k - 52))))"
proof -
  let ?q = "pow2 (k - 52)"
  let ?m = "round_half_even (x / ?q)"
  define B :: int where "B = 2 ^ 53"
  have q: "quantum x = ?q"
    using assms(1-3) by (rule quantum_in_binade)
  have x0: "x \<noteq> 0"
    using assms(1) pow2_pos [of k] by auto
  have "pow2 53 = of_int B" by (simp add: pow2_def B_def)
  then have split: "pow2 (k + 1) = ?q * of_int B"
    using pow2_add [of "k - 52" 53] by (simp add: add.commute)
  have "\<bar>x\<bar> < ?q * of_int B"
    using assms(2) unfolding split .
  then have "\<bar>x\<bar> / ?q < of_int B"
    using pow2_pos [of "k - 52"] by (simp add: field_simps)
  then have "x / ?q \<le> of_int B" "of_int (- B) \<le> x / ?q"
    using pow2_pos [of "k - 52"] by (simp_all add: abs_if field_simps split: if_splits)
  then have "?m \<le> B" "- B \<le> ?m"
    using round_half_even_le_int round_half_even_ge_int by blast+
  then have "\<bar>real_of_int ?m\<bar> \<le> of_int B"
    by linarith
  then have "\<bar>?q * of_int ?m\<bar> \<le> ?q * of_int B"
    using pow2_pos [of "k - 52"] by (simp add: abs_mult)
  then have "\<bar>?q * of_int ?m\<bar> \<le> pow2 (k + 1)"
    unfolding split .
  moreover have "pow2 (k + 1) \<le> pow2 1023"
    using assms(4) by (intro pow2_mono) simp
  ultimately have "\<bar>?q * of_int ?m\<bar> < overflow_threshold"
    using overflow_threshold_gt(2) by linarith
  then have "\<not> overflow_threshold \<le> ?q * of_int ?m" "\<not> ?q * of_int ?m \<le> - overflow_threshold"
    by linarith+
  then show ?thesis
    using x0 by (simp add: rne_def Let_def q)
qed

text \<open>The roundings that the statements below meet.\<close>

lemma rne_zero: "rne 0 = Fin 0"
  by (simp add: rne_def)

lemma rne_one: "rne 1 = Fin 1"
  using rne_in_binade [of 0 1] by (simp add: pow2_def round_half_even_def)

lemma rne_quarter: "rne (1 / 4) = Fin (1 / 4)"
  using rne_in_binade [of "- 2" "1 / 4"] by (simp add: pow2_def round_half_even_def)

lemma rne_eighth: "rne (1 / 8) = Fin (1 / 8)"
  using rne_in_binade [of "- 3" "1 / 8"] by (simp add: pow2_def round_half_even_def)

lemma rne_half: "rne (1 / 2) = Fin (1 / 2)"
  using rne_in_binade [of "- 1" "1 / 2"] by (simp add: pow2_def round_half_even_def)

lemma rne_seven_eighths: "rne (7 / 8) = Fin (7 / 8)"
  using rne_in_binade [of "- 1" "7 / 8"] by (simp add: pow2_def round_half_even_def)

lemma default_threshold_value: "default_threshold = Fin (7656119366529843 / 2 ^ 53)"
  using rne_in_binade [of "- 1" "17 / 20"]
  by (simp add: default_threshold_def pow2_def round_half_even_def)

lemma rne_tiny: "rne (1 / 2 ^ 60) = Fin (1 / 2 ^ 60)" "rne (1 / 2 ^ 61) = Fin (1 / 2 ^ 61)"
  using rne_in_binade [of "- 60" "1 / 2 ^ 60"] rne_in_binade [of "- 61" "1 / 2 ^ 61"]
  by (simp_all add: pow2_def round_half_even_def)

lemma rne_below_one: "rne (1 - 1 / 2 ^ 61) = Fin 1"
  using rne_in_binade [of "- 1" "1 - 1 / 2 ^ 61"] by (simp add: pow2_def round_half_even_def)

text \<open>The scores of the distances 0, 1/4, 1 and \<open>2^-60\<close>.\<close>

lemma score_values:
  "float_one_minus (float_half (Fin 0)) = Fin 1"
  "float_one_minus (float_half (Fin (1 / 4))) = Fin (7 / 8)"
  "float_one_minus (float_half (Fin 1)) = Fin (1 / 2)"
  by (simp_all add: float_half_def float_one_minus_def rne_zero rne_one rne_eighth rne_half
      rne_seven_eighths)

lemma score_tiny: "float_one_minus (float_half (Fin (1 / 2 ^ 60))) = Fin 1"
proof -
  have "float_half (Fin (1 / 2 ^ 60)) = rne (1 / 2 ^ 61)"
    by (simp add: float_half_def)
  then have "float_half (Fin (1 / 2 ^ 60)) = Fin (1 / 2 ^ 61)"
    by (simp only: rne_tiny)
  then have "float_one_minus (float_half (Fin (1 / 2 ^ 60))) = rne (1 - 1 / 2 ^ 61)"
    by (simp only: float_one_minus_def pyfloat.case)
  then show ?thesis
    by (simp only: rne_below_one)
qed

lemma threshold_compare:
  "float_ge (Fin 1) default_threshold" "float_ge (Fin (7 / 8)) default_threshold"
  "\<not> float_ge (Fin (1 / 2)) default_threshold"
  by (simp_all add: default_threshold_value)

section \<open>Lemmas about the service\<close>

lemma detect_loop_append:
  "detect_loop be s t emails gs P = gs @ detect_loop be s t emails [] P"
proof (induction emails arbitrary: gs P)
  case Nil
  show ?case by simp
next
  case (Cons e emails)
  show ?case
    using Cons.IH [of "gs @ [make_group e (find_similar_emails be s e t 10)]"]
      Cons.IH [of "[make_group e (find_similar_emails be s e t 10)]"]
      Cons.IH [of gs]
    by (simp add: Let_def)
qed

lemma scan_results_sound:
  "scan_results own t dists i xs acc = Inr r \<Longrightarrow> (j, sc) \<in> set r \<Longrightarrow>
     (j, sc) \<in> set acc \<or>
     (\<exists>k < length xs. xs ! k = j \<and> j \<noteq> own \<and> dists \<noteq> [] \<and> i + k < length (dists ! 0) \<and>
        sc = float_one_minus (float_half (dists ! 0 ! (i + k))) \<and> float_ge sc t)"
proof (induction xs arbitrary: i acc)
  case Nil
  then show ?case by simp
next
  case (Cons x xs)
  let ?new = "\<lambda>i xs. \<exists>k < length xs. xs ! k = j \<and> j \<noteq> own \<and> dists \<noteq> [] \<and>
      i + k < length (dists ! 0) \<and> sc = float_one_minus (float_half (dists ! 0 ! (i + k))) \<and> float_ge sc t"
  have shift: "?new (Suc i) xs \<Longrightarrow> ?new i (x # xs)"
  proof -
    assume "?new (Suc i) xs"
    then obtain k where k: "k < length xs" "xs ! k = j" "j \<noteq> own" "dists \<noteq> []"
      "Suc i + k < length (dists ! 0)" "sc = float_one_minus (float_half (dists ! 0 ! (Suc i + k)))" "float_ge sc t"
      by blast
    then have "Suc k < length (x # xs) \<and> (x # xs) ! Suc k = j \<and> j \<noteq> own \<and> dists \<noteq> [] \<and>
      i + Suc k < length (dists ! 0) \<and> sc = float_one_minus (float_half (dists ! 0 ! (i + Suc k))) \<and> float_ge sc t"
      by simp
    then show "?new i (x # xs)" by blast
  qed
  show ?case
  proof (cases "x = own")
    case True
    with Cons.prems have "scan_results own t dists (Suc i) xs acc = Inr r" by simp
    from Cons.IH [OF this Cons.prems(2)] shift show ?thesis by blast
  next
    case False
    with Cons.prems(1) obtain d where d: "dists \<noteq> []" "i < length (dists ! 0)" "d = dists ! 0 ! i"
      by (auto simp: index_def split: if_splits)
    show ?thesis
    proof (cases "float_ge (float_one_minus (float_half d)) t")
      case True
      with False d Cons.prems have
        "scan_results own t dists (Suc i) xs (acc @ [(x, float_one_minus (float_half d))]) = Inr r"
        by (simp add: index_def Let_def)
      from Cons.IH [OF this Cons.prems(2)]
      consider "(j, sc) \<in> set acc" | "j = x \<and> sc = float_one_minus (float_half d)" | "?new (Suc i) xs"
        by auto
      then show ?thesis
      proof cases
        case 1 then show ?thesis by simp
      next
        case 2
        with False d True have "0 < length (x # xs) \<and> (x # xs) ! 0 = j \<and> j \<noteq> own \<and> dists \<noteq> [] \<and>
          i + 0 < length (dists ! 0) \<and> sc = float_one_minus (float_half (dists ! 0 ! (i + 0))) \<and> float_ge sc t"
          by simp
        then have "?new i (x # xs)" by blast
        then show ?thesis by simp
      next
        case 3 with shift show ?thesis by blast
      qed
    next
      case nle: False
      with False d Cons.prems have "scan_results own t dists (Suc i) xs acc = Inr r"
        by (simp add: index_def Let_def)
      from Cons.IH [OF this Cons.prems(2)] shift show ?thesis by blast
    qed
  qed
qed

lemma find_similar_emails_sound:
  assumes "(j, sc) \<in> set (find_similar_emails be s e t l)"
  shows "\<exists>v r k. encode be (embedding_text e) = Inr v \<and>
           coll_query be (world s) (collection s) v l = Inr r \<and>
           ids r \<noteq> [] \<and> k < length (ids r ! 0) \<and> ids r ! 0 ! k = j \<and> j \<noteq> id_email e \<and>
           distances r \<noteq> [] \<and> k < length (distances r ! 0) \<and>
           sc = float_one_minus (float_half (distances r ! 0 ! k)) \<and> float_ge sc t"
proof -
  from assms obtain v where v: "encode be (embedding_text e) = Inr v"
    by (cases "encode be (embedding_text e)")
       (auto simp: find_similar_emails_def find_similar_emails_try_def)
  with assms obtain r where r: "coll_query be (world s) (collection s) v l = Inr r"
    by (cases "coll_query be (world s) (collection s) v l")
       (auto simp: find_similar_emails_def find_similar_emails_try_def)
  from assms v r have ne: "ids r \<noteq> []" "hd (ids r) \<noteq> []"
    by (auto simp: find_similar_emails_def find_similar_emails_try_def split: if_splits)
  with assms v r obtain res where
    res: "scan_results (id_email e) t (distances r) 0 (hd (ids r)) [] = Inr res"
      "(j, sc) \<in> set res"
    by (cases "scan_results (id_email e) t (distances r) 0 (hd (ids r)) []")
       (auto simp: find_similar_emails_def find_similar_emails_try_def)
  from scan_results_sound [OF res] obtain k where
    "k < length (hd (ids r))" "hd (ids r) ! k = j" "j \<noteq> id_email e" "distances r \<noteq> []"
    "k < length (distances r ! 0)" "sc = float_one_minus (float_half (distances r ! 0 ! k))" "float_ge sc t"
    by auto
  with ne(1) v r show ?thesis
    by (auto simp: hd_conv_nth)
qed

lemma detect_loop_groups:
  "g \<in> set (detect_loop be s t emails [] P) \<Longrightarrow>
     \<exists>e \<in> set emails. find_similar_emails be s e t 10 \<noteq> [] \<and>
        g = make_group e (find_similar_emails be s e t 10)"
proof (induction emails arbitrary: P)
  case Nil
  then show ?case by simp
next
  case (Cons e emails)
  show ?case
  proof (cases "id_email e \<notin> P \<and> find_similar_emails be s e t 10 \<noteq> []")
    case True
    with Cons.prems have
      "g = make_group e (find_similar_emails be s e t 10) \<or>
       g \<in> set (detect_loop be s t emails []
                  (insert (id_email e) P \<union> set (map fst (find_similar_emails be s e t 10))))"
      using detect_loop_append [of be s t emails "[make_group e (find_similar_emails be s e t 10)]"]
      by (auto simp: Let_def)
    with True Cons.IH show ?thesis by auto
  next
    case False
    with Cons.prems have "g \<in> set (detect_loop be s t emails [] P)"
      by (auto simp: Let_def split: if_splits)
    with Cons.IH show ?thesis by auto
  qed
qed

lemma detect_loop_fresh: "primaries_fresh P (detect_loop be s t emails [] P)"
proof (induction emails arbitrary: P)
  case Nil
  show ?case by simp
next
  case (Cons e emails)
  let ?sim = "find_similar_emails be s e t 10"
  have eq: "P \<union> set (group_ids (make_group e ?sim)) = insert (id_email e) P \<union> set (map fst ?sim)"
    by (auto simp: group_ids_def make_group_def)
  show ?case
    using Cons.IH [of P] Cons.IH [of "insert (id_email e) P \<union> set (map fst ?sim)"]
      detect_loop_append [of be s t emails "[make_group e ?sim]"]
    by (simp add: Let_def eq) (simp add: make_group_def)
qed

lemma primaries_fresh_mono: "primaries_fresh P gs \<Longrightarrow> Q \<subseteq> P \<Longrightarrow> primaries_fresh Q gs"
proof (induction gs arbitrary: P Q)
  case Nil
  show ?case by simp
next
  case (Cons g gs)
  from Cons.prems have "primaries_fresh (P \<union> set (group_ids g)) gs" "primary_email_id g \<notin> Q"
    by auto
  moreover from Cons.prems have "Q \<union> set (group_ids g) \<subseteq> P \<union> set (group_ids g)" by auto
  ultimately show ?case using Cons.IH by simp
qed

lemma primaries_fresh_notin:
  "primaries_fresh P gs \<Longrightarrow> g \<in> set gs \<Longrightarrow> primary_email_id g \<notin> P"
proof (induction gs arbitrary: P)
  case Nil
  then show ?case by simp
next
  case (Cons a gs)
  show ?case
  proof (cases "g = a")
    case True
    with Cons.prems show ?thesis by simp
  next
    case False
    with Cons.prems have "primaries_fresh (P \<union> set (group_ids a)) gs" "g \<in> set gs" by auto
    from Cons.IH [OF this] show ?thesis by simp
  qed
qed

lemma primaries_fresh_split:
  "primaries_fresh P (pre @ g # post) \<Longrightarrow>
     (\<forall>g' \<in> set pre. primary_email_id g \<notin> set (group_ids g')) \<and>
     (\<forall>g' \<in> set post. primary_email_id g' \<noteq> primary_email_id g)"
proof (induction pre arbitrary: P)
  case Nil
  then have "primaries_fresh (P \<union> set (group_ids g)) post" by simp
  from primaries_fresh_notin [OF this] show ?case by (auto simp: group_ids_def)
next
  case (Cons a pre)
  then have tl: "primaries_fresh (P \<union> set (group_ids a)) (pre @ g # post)" by simp
  from primaries_fresh_notin [OF tl, of g] have "primary_email_id g \<notin> set (group_ids a)" by simp
  with Cons.IH [OF tl] show ?case by simp
qed

lemma primaries_fresh_distinct: "primaries_fresh P gs \<Longrightarrow> distinct (map primary_email_id gs)"
proof (induction gs arbitrary: P)
  case Nil
  show ?case by simp
next
  case (Cons g gs)
  then have tl: "primaries_fresh (P \<union> set (group_ids g)) gs" by simp
  have "primary_email_id x \<noteq> primary_email_id g" if "x \<in> set gs" for x
    using primaries_fresh_notin [OF tl that] by (simp add: group_ids_def)
  then have "primary_email_id g \<notin> primary_email_id ` set gs" by force
  with Cons.IH [OF tl] show ?case by simp
qed

lemma detect_duplicates_fresh: "primaries_fresh {} (detect_duplicates be s emails t)"
  unfolding detect_duplicates_def by (rule detect_loop_fresh)

lemma detect_duplicates_groups:
  "g \<in> set (detect_duplicates be s emails t) \<Longrightarrow>
     \<exists>e \<in> set emails. find_similar_emails be s e t 10 \<noteq> [] \<and>
        g = make_group e (find_similar_emails be s e t 10)"
  unfolding detect_duplicates_def by (rule detect_loop_groups)

lemma find_similar_emails_not_self:
  "(id_email e, sc) \<notin> set (find_similar_emails be s e t l)"
  using find_similar_emails_sound [of "id_email e" sc be s e t l] by blast

lemma add_email_swallows: "add_fails be s e \<Longrightarrow> add_email be s e = s"
  by (auto simp: add_fails_def add_email_def add_email_try_def isl_def split: sum.splits)

lemma find_similar_emails_swallows:
  "find_fails be s e l \<Longrightarrow> find_similar_emails be s e t l = []"
  by (auto simp: find_fails_def find_similar_emails_def find_similar_emails_try_def isl_def
      split: sum.splits)

lemma detect_loop_skips_failures:
  "detect_loop be s t (filter (\<lambda>e. \<not> find_fails be s e 10) emails) gs P =
   detect_loop be s t emails gs P"
proof (induction emails arbitrary: gs P)
  case Nil
  show ?case by simp
next
  case (Cons e emails)
  show ?case
  proof (cases "find_fails be s e 10")
    case True
    then have "find_similar_emails be s e t 10 = []"
      by (rule find_similar_emails_swallows)
    with True Cons.IH show ?thesis by simp
  next
    case False
    with Cons.IH show ?thesis by (simp add: Let_def)
  qed
qed

lemma add_email_succeeds:
  assumes "\<not> add_fails be s e"
  obtains v w where "encode be (embedding_text e) = Inr v"
    and "coll_add be (world s) (collection s) v (embedding_text e) (metadata_of e) (id_email e)
           = Inr w"
    and "add_email be s e = s\<lparr>world := w\<rparr>"
proof -
  from assms obtain v where v: "encode be (embedding_text e) = Inr v"
    by (cases "encode be (embedding_text e)") (auto simp: add_fails_def)
  with assms obtain w where
    w: "coll_add be (world s) (collection s) v (embedding_text e) (metadata_of e) (id_email e)
          = Inr w"
    by (cases "coll_add be (world s) (collection s) v (embedding_text e) (metadata_of e)
          (id_email e)") (auto simp: add_fails_def)
  from v w have "add_email be s e = s\<lparr>world := w\<rparr>"
    by (simp add: add_email_def add_email_try_def)
  with v w that show thesis by blast
qed

lemma add_email_encode_cong:
  "f (embedding_text e) = g (embedding_text e) \<Longrightarrow>
     add_email (be\<lparr>encode := f\<rparr>) s e = add_email (be\<lparr>encode := g\<rparr>) s e"
  by (cases "g (embedding_text e)") (simp_all add: add_email_def add_email_try_def)

lemma find_similar_emails_encode_cong:
  "f (embedding_text e) = g (embedding_text e) \<Longrightarrow>
     find_similar_emails (be\<lparr>encode := f\<rparr>) s e t l =
     find_similar_emails (be\<lparr>encode := g\<rparr>) s e t l"
  by (cases "g (embedding_text e)")
     (simp_all add: find_similar_emails_def find_similar_emails_try_def)

section \<open>The in-memory store, evaluated\<close>

lemma line_world:
  "world line_service =
     [(''A'', [3 / 2], embedding_text mail_a, metadata_of mail_a),
      (''B'', [2], embedding_text mail_b, metadata_of mail_b),
      (''C'', [5 / 2], embedding_text mail_c, metadata_of mail_c)]"
  by (simp add: line_service_def add_email_def add_email_try_def mem_backend_def
      mem_encode_def mem_add_def embedding_text_def mail_a_def mail_b_def mail_c_def mail_def
      empty_service_def)

lemma line_find_a:
  "find_similar_emails mem_backend line_service mail_a default_threshold 10 = [(''B'', Fin (7 / 8))]"
  by (simp add: find_similar_emails_def find_similar_emails_try_def line_world
      mem_backend_def mem_encode_def mem_query_def l2_def index_def Let_def
      rne_zero rne_quarter rne_one score_values threshold_compare
      embedding_text_def mail_a_def mail_def)

lemma line_find_b:
  "find_similar_emails mem_backend line_service mail_b default_threshold 10 =
     [(''A'', Fin (7 / 8)), (''C'', Fin (7 / 8))]"
  by (simp add: find_similar_emails_def find_similar_emails_try_def line_world
      mem_backend_def mem_encode_def mem_query_def l2_def index_def Let_def
      rne_zero rne_quarter rne_one score_values threshold_compare
      embedding_text_def mail_b_def mail_def)

lemma line_find_c:
  "find_similar_emails mem_backend line_service mail_c default_threshold 10 = [(''B'', Fin (7 / 8))]"
  by (simp add: find_similar_emails_def find_similar_emails_try_def line_world
      mem_backend_def mem_encode_def mem_query_def l2_def index_def Let_def
      rne_zero rne_quarter rne_one score_values threshold_compare
      embedding_text_def mail_c_def mail_def)

lemma mail_fields:
  "id_email mail_a = ''A''" "id_email mail_b = ''B''" "id_email mail_c = ''C''"
  "subject mail_a = ''a''" "subject mail_b = ''ab''" "subject mail_c = ''abc''"
  by (simp_all add: mail_a_def mail_b_def mail_c_def mail_def)

lemma line_groups:
  "detect_duplicates mem_backend line_service [mail_a, mail_b, mail_c] default_threshold =
     [\<lparr>primary_email_id = ''A'', duplicate_ids = [''B''], similarity_scores = [Fin (7 / 8)],
        subject_group = ''a'', count = 2\<rparr>,
      \<lparr>primary_email_id = ''C'', duplicate_ids = [''B''], similarity_scores = [Fin (7 / 8)],
        subject_group = ''abc'', count = 2\<rparr>]"
  by (simp add: detect_duplicates_def Let_def line_find_a line_find_c make_group_def
      mail_fields)

lemma l2_nonneg: "0 \<le> l2 u v"
  unfolding l2_def by (rule sum_list_nonneg) auto

lemma float_nonneg_rne: "0 \<le> x \<Longrightarrow> float_nonneg (rne x)"
  using rne_nonneg [of x] by (auto simp: float_nonneg_def)

lemma mem_distances_nonneg: "distances_nonneg mem_backend"
  unfolding distances_nonneg_def
  by (auto simp: mem_backend_def mem_query_def Let_def l2_nonneg float_nonneg_rne
      dest!: in_set_takeD)


lemma mem_add_keeps: "add_keeps mem_backend"
proof -
  have "case mem_get w h i of
          None \<Rightarrow> mem_get w' h i = Some (d, m)
        | Some x \<Rightarrow> mem_get w' h i = Some x \<and> mem_count w' h = mem_count w h"
    if "mem_add w h v d m i = Inr w'" for w h v d m i w'
  proof (cases "i \<in> set (map fst w)")
    case True
    with that have "w' = w" by (simp add: mem_add_def)
    moreover from True have "mem_get w h i \<noteq> None"
      by (simp add: mem_get_def map_of_eq_None_iff)
    ultimately show ?thesis by (auto split: option.splits)
  next
    case False
    with that have "w' = w @ [(i, v, d, m)]" by (simp add: mem_add_def)
    moreover from False have "map_of w i = None"
      by (simp add: map_of_eq_None_iff)
    ultimately show ?thesis by (simp add: mem_get_def map_add_def)
  qed
  moreover have "coll_add mem_backend = mem_add" "coll_get mem_backend = mem_get"
    "coll_count mem_backend = mem_count"
    by (simp_all add: mem_backend_def)
  ultimately show ?thesis
    unfolding add_keeps_def by presburger
qed

lemma line_query_b:
  "coll_query mem_backend (world line_service) (collection line_service) [2] 10 =
     Inr \<lparr>ids = [[''B'', ''A'', ''C'']], distances = [[Fin 0, Fin (1 / 4), Fin (1 / 4)]]\<rparr>"
  by (simp add: line_world mem_backend_def mem_query_def l2_def Let_def rne_zero rne_quarter)

lemma blank_fails:
  "add_fails picky_backend s mail_blank" "find_fails picky_backend s mail_blank l"
  by (simp_all add: add_fails_def find_fails_def picky_backend_def picky_encode_def
      embedding_text_def mail_blank_def mail_def)

lemma picky_find_a:
  "find_similar_emails picky_backend line_service mail_a default_threshold 10 = [(''B'', Fin (7 / 8))]"
  by (simp add: find_similar_emails_def find_similar_emails_try_def line_world
      picky_backend_def picky_encode_def
      mem_backend_def mem_encode_def mem_query_def l2_def index_def Let_def
      rne_zero rne_quarter rne_one score_values threshold_compare
      embedding_text_def mail_a_def mail_def)

lemma picky_groups:
  "detect_duplicates picky_backend line_service [mail_blank, mail_a] default_threshold =
     [make_group mail_a [(''B'', Fin (7 / 8))]]"
  by (simp add: detect_duplicates_def Let_def picky_find_a
      find_similar_emails_swallows [OF blank_fails(2)])

lemma long_text: "length (embedding_text mail_long) = 2012"
  by (simp add: embedding_text_def mail_long_def mail_def)

lemma not_add_fails_mem: "\<not> add_fails mem_backend s e"
  by (simp add: add_fails_def mem_backend_def mem_encode_def mem_add_def)

lemma mail_a2_fields: "id_email mail_a2 = ''A''" "embedding_text mail_a2 \<noteq> embedding_text mail_a"
  by (simp_all add: mail_a2_def mail_a_def mail_def embedding_text_def)

lemma keep_twice:
  "add_email mem_backend (add_email mem_backend empty_service mail_a) mail_a2 =
     \<lparr>world = [(''A'', [3 / 2], embedding_text mail_a, metadata_of mail_a)], collection = ()\<rparr>"
  by (simp add: add_email_def add_email_try_def mem_backend_def
      mem_encode_def mem_add_def empty_service_def mail_fields mail_a2_fields)
     (simp add: embedding_text_def mail_a_def mail_def)

lemma near_query:
  "coll_query mem_backend (world near_service) (collection near_service) [3 / 2] 10 =
     Inr \<lparr>ids = [[''N'']], distances = [[Fin (1 / 2 ^ 60)]]\<rparr>"
proof -
  have "l2 [3 / 2] [3 / 2 + 1 / 2 ^ 30] = 1 / 2 ^ 60"
    by (simp add: l2_def)
  then have "rne (l2 [3 / 2] [3 / 2 + 1 / 2 ^ 30]) = Fin (1 / 2 ^ 60)"
    by (simp only: rne_tiny)
  then show ?thesis
    by (simp add: near_service_def mem_backend_def mem_query_def Let_def del: One_nat_def)
qed

lemma near_find:
  "find_similar_emails mem_backend near_service mail_a default_threshold 10 = [(''N'', Fin 1)]"
proof -
  have enc: "encode mem_backend (embedding_text mail_a) = Inr [3 / 2]"
    by (simp add: mem_backend_def mem_encode_def embedding_text_def mail_a_def mail_def)
  have "find_similar_emails_try mem_backend near_service mail_a default_threshold 10 =
      scan_results (id_email mail_a) default_threshold [[Fin (1 / 2 ^ 60)]] 0 [''N''] []"
    by (simp only: find_similar_emails_try_def enc near_query sum.case query_result.simps
        list.sel) simp
  also have "\<dots> = Inr [(''N'', Fin 1)]"
    by (simp add: index_def Let_def score_tiny [simplified] threshold_compare mail_fields)
  finally show ?thesis
    by (simp add: find_similar_emails_def)
qed



section \<open>The claims\<close>

text \<open>
  C1, as amended. The claim as stated fails: \<^verbatim>\<open>processed_ids\<close> is consulted only
  when an email is about to become a primary, never when the matches of a primary are
  listed, so an id can be a member of several groups. What the loop does guarantee:
  no id is the primary of two groups, no group lists its own primary as a member, and
  an id placed in a group, as primary or as member, is never the primary of a later
  group of the same call.
\<close>

theorem detect_duplicates_primaries_exclusive:
  assumes "gs = detect_duplicates be s emails t"
  shows "distinct (map primary_email_id gs) \<and>
         (\<forall>g \<in> set gs. primary_email_id g \<notin> set (duplicate_ids g)) \<and>
         (\<forall>j < length gs. \<forall>i < j. primary_email_id (gs ! j) \<notin> set (group_ids (gs ! i)))"
proof -
  have fresh: "primaries_fresh {} gs"
    unfolding assms by (rule detect_duplicates_fresh)
  have own: "primary_email_id g \<notin> set (duplicate_ids g)" if "g \<in> set gs" for g
  proof -
    from that obtain e where "g = make_group e (find_similar_emails be s e t 10)"
      using detect_duplicates_groups unfolding assms by blast
    then show ?thesis
      using find_similar_emails_not_self [of e _ be s t 10] by (auto simp: make_group_def)
  qed
  have later: "primary_email_id (gs ! j) \<notin> set (group_ids (gs ! i))"
    if "j < length gs" "i < j" for i j
  proof -
    from that have split: "gs = take j gs @ gs ! j # drop (Suc j) gs"
      by (simp add: id_take_nth_drop)
    from that have "gs ! i \<in> set (take j gs)"
      by (metis in_set_conv_nth length_take min.absorb2 less_imp_le nth_take)
    with primaries_fresh_split [of "{}" "take j gs" "gs ! j" "drop (Suc j) gs"] fresh split
    show ?thesis by auto
  qed
  from primaries_fresh_distinct [OF fresh] own later show ?thesis by blast
qed

theorem detect_duplicates_primaries_exclusive_witness:
  "length (detect_duplicates mem_backend line_service [mail_a, mail_b, mail_c] default_threshold) = 2 \<and>
   distinct (map primary_email_id
     (detect_duplicates mem_backend line_service [mail_a, mail_b, mail_c] default_threshold)) \<and>
   primary_email_id (detect_duplicates mem_backend line_service [mail_a, mail_b, mail_c] default_threshold ! 0)
     \<notin> set (duplicate_ids
         (detect_duplicates mem_backend line_service [mail_a, mail_b, mail_c] default_threshold ! 0)) \<and>
   primary_email_id (detect_duplicates mem_backend line_service [mail_a, mail_b, mail_c] default_threshold ! 1)
     \<notin> set (group_ids
         (detect_duplicates mem_backend line_service [mail_a, mail_b, mail_c] default_threshold ! 0))"
proof -
  let ?gs = "detect_duplicates mem_backend line_service [mail_a, mail_b, mail_c] default_threshold"
  have len: "length ?gs = 2"
    by (simp add: line_groups)
  from detect_duplicates_primaries_exclusive [OF refl, of mem_backend line_service
      "[mail_a, mail_b, mail_c]" default_threshold]
  have "distinct (map primary_email_id ?gs)"
    and own: "\<forall>g \<in> set ?gs. primary_email_id g \<notin> set (duplicate_ids g)"
    and later: "\<forall>j < length ?gs. \<forall>i < j. primary_email_id (?gs ! j) \<notin> set (group_ids (?gs ! i))"
    by blast+
  moreover from own len
  have "primary_email_id (?gs ! 0) \<notin> set (duplicate_ids (?gs ! 0))"
    by simp
  moreover from later [rule_format, of 1 0] len
  have "primary_email_id (?gs ! 1) \<notin> set (group_ids (?gs ! 0))"
    by simp
  ultimately show ?thesis using len by blast
qed

theorem detect_duplicates_overlap_counterexample:
  "map group_ids (detect_duplicates mem_backend line_service [mail_a, mail_b, mail_c] default_threshold) =
     [[''A'', ''B''], [''C'', ''B'']] \<and>
   \<not> distinct (concat (map group_ids
       (detect_duplicates mem_backend line_service [mail_a, mail_b, mail_c] default_threshold)))"
  by (simp add: line_groups group_ids_def)

text \<open>
  C2, as amended. \<^verbatim>\<open>add_email\<close> calls \<^verbatim>\<open>collection.add\<close> and has no code of its
  own for an id that is already stored. On a store whose add keeps what it has, as
  the add of a ChromaDB collection does, a second \<^verbatim>\<open>add_email\<close> under the same id,
  after a first one that went through, leaves \<^verbatim>\<open>get_email_count()\<close> as it was
  after the first call and leaves under the id the text and the metadata that were
  there after the first call: those of the first call when the id was new (the first
  write wins, not the last). No error is raised: \<^verbatim>\<open>add_email\<close> is total.
\<close>

theorem add_email_same_id_keeps_first:
  assumes "add_keeps be" and "id_email e2 = id_email e1" and "\<not> add_fails be s e1"
  shows "get_email_count be (add_email be (add_email be s e1) e2) =
           get_email_count be (add_email be s e1) \<and>
         coll_get be (world (add_email be (add_email be s e1) e2))
             (collection (add_email be (add_email be s e1) e2)) (id_email e1) =
           coll_get be (world (add_email be s e1)) (collection (add_email be s e1))
             (id_email e1) \<and>
         coll_get be (world (add_email be s e1)) (collection (add_email be s e1))
             (id_email e1) \<noteq> None \<and>
         (coll_get be (world s) (collection s) (id_email e1) = None \<longrightarrow>
            coll_get be (world (add_email be (add_email be s e1) e2))
                (collection (add_email be (add_email be s e1) e2)) (id_email e1) =
              Some (embedding_text e1, metadata_of e1))"
proof -
  let ?h = "collection s"
  let ?i = "id_email e1"
  from assms(3) obtain v1 w1 where
    first: "coll_add be (world s) ?h v1 (embedding_text e1) (metadata_of e1) ?i = Inr w1"
      "add_email be s e1 = s\<lparr>world := w1\<rparr>"
    by (rule add_email_succeeds)
  from assms(1) first(1) have
    stored: "case coll_get be (world s) ?h ?i of
               None \<Rightarrow> coll_get be w1 ?h ?i = Some (embedding_text e1, metadata_of e1)
             | Some x \<Rightarrow> coll_get be w1 ?h ?i = Some x \<and>
                 coll_count be w1 ?h = coll_count be (world s) ?h"
    unfolding add_keeps_def by blast
  then obtain x where x: "coll_get be w1 ?h ?i = Some x"
    by (cases "coll_get be (world s) ?h ?i") auto
  from stored have new: "coll_get be (world s) ?h ?i = None \<Longrightarrow>
      coll_get be w1 ?h ?i = Some (embedding_text e1, metadata_of e1)"
    by simp
  have second: "coll_get be (world (add_email be (s\<lparr>world := w1\<rparr>) e2)) ?h ?i = Some x \<and>
      coll_count be (world (add_email be (s\<lparr>world := w1\<rparr>) e2)) ?h = coll_count be w1 ?h \<and>
      collection (add_email be (s\<lparr>world := w1\<rparr>) e2) = ?h"
  proof (cases "add_fails be (s\<lparr>world := w1\<rparr>) e2")
    case True
    then have "add_email be (s\<lparr>world := w1\<rparr>) e2 = s\<lparr>world := w1\<rparr>"
      by (rule add_email_swallows)
    with x show ?thesis by simp
  next
    case False
    then obtain v2 w2 where
      w2: "coll_add be w1 ?h v2 (embedding_text e2) (metadata_of e2) ?i = Inr w2"
        "add_email be (s\<lparr>world := w1\<rparr>) e2 = s\<lparr>world := w2\<rparr>"
      by (rule add_email_succeeds) (simp add: assms(2))
    from assms(1) w2(1) x have "coll_get be w2 ?h ?i = Some x \<and>
        coll_count be w2 ?h = coll_count be w1 ?h"
      unfolding add_keeps_def by fastforce
    with w2(2) show ?thesis by simp
  qed
  with x new show ?thesis
    by (simp add: first(2) get_email_count_def)
qed

theorem add_email_same_id_keeps_first_witness:
  "add_keeps mem_backend \<and> id_email mail_a2 = id_email mail_a \<and>
   \<not> add_fails mem_backend empty_service mail_a \<and>
   coll_get mem_backend (world empty_service) (collection empty_service) (id_email mail_a) = None \<and>
   get_email_count mem_backend (add_email mem_backend empty_service mail_a) = 1 \<and>
   get_email_count mem_backend
     (add_email mem_backend (add_email mem_backend empty_service mail_a) mail_a2) =
     get_email_count mem_backend (add_email mem_backend empty_service mail_a) \<and>
   coll_get mem_backend
     (world (add_email mem_backend (add_email mem_backend empty_service mail_a) mail_a2))
     (collection (add_email mem_backend (add_email mem_backend empty_service mail_a) mail_a2))
     (id_email mail_a) = Some (embedding_text mail_a, metadata_of mail_a)"
proof -
  have ids: "id_email mail_a2 = id_email mail_a"
    by (simp add: mail_fields mail_a2_fields)
  have new: "coll_get mem_backend (world empty_service) (collection empty_service)
      (id_email mail_a) = None"
    by (simp add: mem_backend_def mem_get_def empty_service_def)
  have one: "get_email_count mem_backend (add_email mem_backend empty_service mail_a) = 1"
    by (simp add: get_email_count_def add_email_def add_email_try_def mem_backend_def
        mem_encode_def mem_add_def mem_count_def empty_service_def)
  from add_email_same_id_keeps_first [OF mem_add_keeps ids not_add_fails_mem,
      of empty_service] mem_add_keeps ids not_add_fails_mem [of empty_service mail_a] new one
  show ?thesis by blast
qed

theorem add_email_same_id_kept_counterexample:
  "id_email mail_a2 = id_email mail_a \<and>
   embedding_text mail_a2 \<noteq> embedding_text mail_a \<and>
   \<not> add_fails mem_backend empty_service mail_a \<and>
   \<not> add_fails mem_backend (add_email mem_backend empty_service mail_a) mail_a2 \<and>
   get_email_count mem_backend (add_email mem_backend empty_service mail_a) = 1 \<and>
   get_email_count mem_backend
     (add_email mem_backend (add_email mem_backend empty_service mail_a) mail_a2) = 1 \<and>
   coll_get mem_backend
     (world (add_email mem_backend (add_email mem_backend empty_service mail_a) mail_a2))
     () ''A'' = Some (embedding_text mail_a, metadata_of mail_a) \<and>
   coll_get mem_backend
     (world (add_email mem_backend (add_email mem_backend empty_service mail_a) mail_a2))
     () ''A'' \<noteq> Some (embedding_text mail_a2, metadata_of mail_a2)"
proof -
  have one: "get_email_count mem_backend (add_email mem_backend empty_service mail_a) = 1"
    by (simp add: get_email_count_def add_email_def add_email_try_def mem_backend_def
        mem_encode_def mem_add_def mem_count_def empty_service_def)
  have two: "get_email_count mem_backend
      (add_email mem_backend (add_email mem_backend empty_service mail_a) mail_a2) = 1"
    by (simp add: keep_twice get_email_count_def) (simp add: mem_backend_def mem_count_def)
  have kept: "coll_get mem_backend
      (world (add_email mem_backend (add_email mem_backend empty_service mail_a) mail_a2))
      () ''A'' = Some (embedding_text mail_a, metadata_of mail_a)"
    by (simp add: keep_twice) (simp add: mem_backend_def mem_get_def)
  with mail_a2_fields(2) have "coll_get mem_backend
      (world (add_email mem_backend (add_email mem_backend empty_service mail_a) mail_a2))
      () ''A'' \<noteq> Some (embedding_text mail_a2, metadata_of mail_a2)"
    by simp
  with one two kept mail_a2_fields not_add_fails_mem show ?thesis
    by (simp add: mail_fields)
qed

text \<open>
  C3, as amended. The three methods are total functions here because each body sits
  in a handler for every \<^verbatim>\<open>Exception\<close>: there is no exception left for the caller.
  When an embedding or store operation of \<^verbatim>\<open>add_email\<close> fails, the service is
  left as it was; when one of \<^verbatim>\<open>find_similar_emails\<close> fails, the result is the
  empty list. \<^verbatim>\<open>detect_duplicates\<close> never sees such a failure, because the lookup
  has swallowed it: an email whose lookup fails counts as one without matches, the
  batch goes on, and the result is the one for the batch without those emails. It is
  the empty list when the lookup fails for every email.
\<close>

theorem failures_swallowed:
  "(add_fails be s e \<longrightarrow> add_email be s e = s) \<and>
   (find_fails be s e l \<longrightarrow> find_similar_emails be s e t l = []) \<and>
   detect_duplicates be s emails t =
     detect_duplicates be s (filter (\<lambda>e. \<not> find_fails be s e 10) emails) t \<and>
   ((\<forall>e \<in> set emails. find_fails be s e 10) \<longrightarrow> detect_duplicates be s emails t = [])"
proof -
  have skip: "detect_duplicates be s emails t =
      detect_duplicates be s (filter (\<lambda>e. \<not> find_fails be s e 10) emails) t"
    by (simp add: detect_duplicates_def detect_loop_skips_failures)
  have "detect_duplicates be s emails t = []" if "\<forall>e \<in> set emails. find_fails be s e 10"
  proof -
    from that have "filter (\<lambda>e. \<not> find_fails be s e 10) emails = []"
      by (simp add: filter_empty_conv)
    with skip show ?thesis by (simp add: detect_duplicates_def)
  qed
  with skip add_email_swallows [of be s e] find_similar_emails_swallows [of be s e l t]
  show ?thesis by blast
qed

theorem failures_swallowed_witness:
  "add_fails picky_backend line_service mail_blank \<and>
   add_email picky_backend line_service mail_blank = line_service \<and>
   find_fails picky_backend line_service mail_blank 10 \<and>
   find_similar_emails picky_backend line_service mail_blank default_threshold 10 = [] \<and>
   filter (\<lambda>e. \<not> find_fails picky_backend line_service e 10) [mail_blank] = [] \<and>
   detect_duplicates picky_backend line_service [mail_blank] default_threshold = []"
proof -
  note fails = blank_fails(1) [of line_service] blank_fails(2) [of line_service 10]
  from fails(2) have all: "\<forall>e \<in> set [mail_blank]. find_fails picky_backend line_service e 10"
    and none: "filter (\<lambda>e. \<not> find_fails picky_backend line_service e 10) [mail_blank] = []"
    by simp_all
  from failures_swallowed [of picky_backend line_service mail_blank 10 default_threshold "[mail_blank]"]
    fails all none
  show ?thesis by blast
qed

theorem detect_duplicates_failure_counterexample:
  "find_fails picky_backend line_service mail_blank 10 \<and>
   find_similar_emails picky_backend line_service mail_blank default_threshold 10 = [] \<and>
   detect_duplicates picky_backend line_service [mail_blank, mail_a] default_threshold \<noteq> []"
  using blank_fails(2) [of line_service 10] 
  by (simp add: picky_groups find_similar_emails_swallows)

text \<open>
  C4, as amended. Let the threshold be a float in [0, 1] and let the store report
  distances, that is, floats that are neither negative nor NaN. Then every pair
  \<open>(j, sc)\<close> returned by \<^verbatim>\<open>find_similar_emails\<close> comes from a position \<open>k\<close> of the
  query result for the email's embedding: \<open>j\<close> is the id at \<open>k\<close>, \<open>sc\<close> is the float
  that \<^verbatim>\<open>1 - (distance / 2)\<close> computes from the distance at \<open>k\<close>, \<open>sc\<close> compares
  \<^verbatim>\<open>>=\<close> to the threshold, and \<open>sc\<close> is a finite float in [0, 1] and not below
  the threshold. A distance of 0 gives the score 1.0. The converse is what fails:
  the subtraction rounds, and a positive distance that is small enough also gives
  exactly 1.0.
\<close>

theorem find_similar_emails_scores:
  assumes "t = Fin x" and "0 \<le> x" and "x \<le> 1" and "distances_nonneg be"
    and "(j, sc) \<in> set (find_similar_emails be s e t l)"
  shows "(\<exists>v r k. encode be (embedding_text e) = Inr v \<and>
            coll_query be (world s) (collection s) v l = Inr r \<and>
            ids r \<noteq> [] \<and> k < length (ids r ! 0) \<and> ids r ! 0 ! k = j \<and>
            distances r \<noteq> [] \<and> k < length (distances r ! 0) \<and>
            sc = float_one_minus (float_half (distances r ! 0 ! k)) \<and>
            (distances r ! 0 ! k = Fin 0 \<longrightarrow> sc = Fin 1)) \<and>
         float_ge sc t \<and>
         (\<exists>y. sc = Fin y \<and> x \<le> y \<and> 0 \<le> y \<and> y \<le> 1)"
proof -
  from find_similar_emails_sound [OF assms(5)] obtain v r k where
    k: "encode be (embedding_text e) = Inr v"
       "coll_query be (world s) (collection s) v l = Inr r"
       "ids r \<noteq> []" "k < length (ids r ! 0)" "ids r ! 0 ! k = j"
       "distances r \<noteq> []" "k < length (distances r ! 0)"
       "sc = float_one_minus (float_half (distances r ! 0 ! k))" "float_ge sc t"
    by blast
  let ?d = "distances r ! 0 ! k"
  from k(6) have "distances r ! 0 \<in> set (distances r)" by simp
  moreover from k(7) have "?d \<in> set (distances r ! 0)" by simp
  ultimately have nonneg: "float_nonneg ?d"
    using assms(4) k(2) unfolding distances_nonneg_def by blast
  have zero: "sc = Fin 1" if "?d = Fin 0"
    using that k(8) by (simp add: score_values)
  have shape: "sc = NInf \<or> (\<exists>y\<le>1. sc = Fin y)"
  proof (cases ?d)
    case (Fin d)
    with nonneg have "0 \<le> d / 2" by (simp add: float_nonneg_def)
    from rne_nonneg [OF this] show ?thesis
    proof
      assume "rne (d / 2) = PInf"
      with Fin k(8) show ?thesis
        by (simp add: float_half_def float_one_minus_def)
    next
      assume "\<exists>h\<ge>0. rne (d / 2) = Fin h"
      then obtain h where h: "0 \<le> h" "rne (d / 2) = Fin h" by blast
      with Fin k(8) have "sc = rne (1 - h)"
        by (simp add: float_half_def float_one_minus_def)
      moreover from h(1) have "1 - h \<le> 1" by simp
      ultimately show ?thesis
        using rne_le_one [of "1 - h"] by simp
    qed
  next
    case PInf
    with k(8) show ?thesis
      by (simp add: float_half_def float_one_minus_def)
  next
    case NInf
    with nonneg show ?thesis by (simp add: float_nonneg_def)
  next
    case NaN
    with nonneg show ?thesis by (simp add: float_nonneg_def)
  qed
  with k(9) assms(1) obtain y where y: "sc = Fin y" "x \<le> y" "y \<le> 1"
    by auto
  with assms(2) have "\<exists>y. sc = Fin y \<and> x \<le> y \<and> 0 \<le> y \<and> y \<le> 1"
    by auto
  with k zero show ?thesis by blast
qed

theorem find_similar_emails_scores_witness:
  "default_threshold = Fin (7656119366529843 / 2 ^ 53) \<and>
   (0::real) \<le> 7656119366529843 / 2 ^ 53 \<and> (7656119366529843 / 2 ^ 53 :: real) \<le> 1 \<and>
   distances_nonneg mem_backend \<and>
   (''A'', Fin (7 / 8))
     \<in> set (find_similar_emails mem_backend line_service mail_b default_threshold 10) \<and>
   (\<exists>v r k. encode mem_backend (embedding_text mail_b) = Inr v \<and>
      coll_query mem_backend (world line_service) (collection line_service) v 10 = Inr r \<and>
      ids r \<noteq> [] \<and> k < length (ids r ! 0) \<and> ids r ! 0 ! k = ''A'' \<and>
      distances r \<noteq> [] \<and> k < length (distances r ! 0) \<and>
      Fin (7 / 8) = float_one_minus (float_half (distances r ! 0 ! k))) \<and>
   float_ge (Fin (7 / 8)) default_threshold \<and>
   (\<exists>y. Fin (7 / 8) = Fin y \<and> 7656119366529843 / 2 ^ 53 \<le> y \<and> 0 \<le> y \<and> y \<le> 1)"
proof -
  have t: "(0::real) \<le> 7656119366529843 / 2 ^ 53" "(7656119366529843 / 2 ^ 53 :: real) \<le> 1"
    by simp_all
  have mem: "(''A'', Fin (7 / 8))
      \<in> set (find_similar_emails mem_backend line_service mail_b default_threshold 10)"
    by (simp add: line_find_b)
  from find_similar_emails_scores [OF default_threshold_value t mem_distances_nonneg mem]
    default_threshold_value t mem_distances_nonneg mem
  show ?thesis by blast
qed

theorem find_similar_emails_score_one_counterexample:
  "coll_query mem_backend (world near_service) (collection near_service) [3 / 2] 10 =
     Inr \<lparr>ids = [[''N'']], distances = [[Fin (1 / 2 ^ 60)]]\<rparr> \<and>
   find_similar_emails mem_backend near_service mail_a default_threshold 10 = [(''N'', Fin 1)] \<and>
   Fin (1 / 2 ^ 60) \<noteq> Fin 0 \<and>
   Fin 1 \<noteq> Fin (1 - (1 / 2 ^ 60) / 2)"
  using near_query near_find by simp

text \<open>
  C5. Whatever the store holds and returns, also when the email itself is stored and
  comes back as its own nearest neighbour, no pair returned by
  \<^verbatim>\<open>find_similar_emails\<close> carries the id of the email that was looked up.
\<close>

theorem find_similar_emails_excludes_self:
  "id_email e \<notin> fst ` set (find_similar_emails be s e t l)"
  using find_similar_emails_not_self [of e _ be s t l] by auto

theorem find_similar_emails_excludes_self_witness:
  "coll_query mem_backend (world line_service) (collection line_service) [2] 10 =
     Inr \<lparr>ids = [[''B'', ''A'', ''C'']], distances = [[Fin 0, Fin (1 / 4), Fin (1 / 4)]]\<rparr> \<and>
   id_email mail_b = ''B'' \<and>
   find_similar_emails mem_backend line_service mail_b default_threshold 10 = [(''A'', Fin (7 / 8)), (''C'', Fin (7 / 8))] \<and>
   id_email mail_b \<notin> fst ` set (find_similar_emails mem_backend line_service mail_b default_threshold 10)"
proof -
  have "find_similar_emails mem_backend line_service mail_b default_threshold 10 =
      [(''A'', Fin (7 / 8)), (''C'', Fin (7 / 8))]"
    by (simp add: line_find_b)
  with line_query_b mail_fields(2)
    find_similar_emails_excludes_self [of mail_b mem_backend line_service default_threshold 10]
  show ?thesis by blast
qed

text \<open>
  C6, as amended. The text is the subject in full, two newlines and the first 1000
  characters of the body: only the body is cut, so the text has
  \<open>len(subject) + 2 + min(len(body), 1000)\<close> characters. \<^verbatim>\<open>add_email\<close> and
  \<^verbatim>\<open>find_similar_emails\<close> consult the encoder at this text and nowhere else; a
  lookup that returns a match has embedded this text and queried the store with the
  embedding; and when the encoder returns an embedding, the document that
  \<^verbatim>\<open>add_email\<close> hands to the store with it is this same text.
\<close>

theorem embedding_text_shared:
  "embedding_text e = subject e @ [CHR 0x0A, CHR 0x0A] @ take 1000 (body e) \<and>
   take (length (subject e)) (embedding_text e) = subject e \<and>
   drop (length (subject e) + 2) (embedding_text e) = take 1000 (body e) \<and>
   length (embedding_text e) = length (subject e) + 2 + min (length (body e)) 1000 \<and>
   (f (embedding_text e) = g (embedding_text e) \<longrightarrow>
      add_email (be\<lparr>encode := f\<rparr>) s e = add_email (be\<lparr>encode := g\<rparr>) s e \<and>
      find_similar_emails (be\<lparr>encode := f\<rparr>) s e t l =
        find_similar_emails (be\<lparr>encode := g\<rparr>) s e t l) \<and>
   (encode be (embedding_text e) = Inr v \<and>
    coll_add be (world s) (collection s) v (embedding_text e) (metadata_of e) (id_email e)
      = Inr w \<longrightarrow>
      add_email be s e = s\<lparr>world := w\<rparr>) \<and>
   (find_similar_emails be s e t l \<noteq> [] \<longrightarrow>
      (\<exists>u r. encode be (embedding_text e) = Inr u \<and>
         coll_query be (world s) (collection s) u l = Inr r))"
proof -
  have "\<exists>u r. encode be (embedding_text e) = Inr u \<and>
      coll_query be (world s) (collection s) u l = Inr r"
    if "find_similar_emails be s e t l \<noteq> []"
  proof -
    from that obtain j sc where "(j, sc) \<in> set (find_similar_emails be s e t l)"
      by (cases "find_similar_emails be s e t l") auto
    from find_similar_emails_sound [OF this] show ?thesis by blast
  qed
  with add_email_encode_cong [of f e g be s]
    find_similar_emails_encode_cong [of f e g be s t l]
  show ?thesis
    by (simp add: embedding_text_def add_email_def add_email_try_def)
qed

theorem embedding_text_shared_witness:
  "length (embedding_text mail_long) = 2000 + 2 + 10 \<and>
   take 2000 (embedding_text mail_long) = subject mail_long \<and>
   encode mem_backend (embedding_text mail_a) = Inr [3 / 2] \<and>
   coll_add mem_backend (world empty_service) (collection empty_service) [3 / 2]
     (embedding_text mail_a) (metadata_of mail_a) (id_email mail_a)
     = Inr [(''A'', [3 / 2], embedding_text mail_a, metadata_of mail_a)] \<and>
   add_email mem_backend empty_service mail_a =
     empty_service\<lparr>world := [(''A'', [3 / 2], embedding_text mail_a, metadata_of mail_a)]\<rparr> \<and>
   picky_encode (embedding_text mail_a) = mem_encode (embedding_text mail_a) \<and>
   find_similar_emails (mem_backend\<lparr>encode := picky_encode\<rparr>) line_service mail_a
       default_threshold 10 =
     find_similar_emails (mem_backend\<lparr>encode := mem_encode\<rparr>) line_service mail_a
       default_threshold 10 \<and>
   find_similar_emails mem_backend line_service mail_a default_threshold 10 \<noteq> [] \<and>
   (\<exists>u r. encode mem_backend (embedding_text mail_a) = Inr u \<and>
      coll_query mem_backend (world line_service) (collection line_service) u 10 = Inr r)"
proof -
  have found: "find_similar_emails mem_backend line_service mail_a default_threshold 10 \<noteq> []"
    by (simp add: line_find_a)
  have len: "length (subject mail_long) = 2000" "length (body mail_long) = 10"
    by (simp_all add: mail_long_def mail_def)
  have enc: "encode mem_backend (embedding_text mail_a) = Inr [3 / 2]"
    by (simp add: mem_backend_def mem_encode_def embedding_text_def mail_a_def mail_def)
  have add: "coll_add mem_backend (world empty_service) (collection empty_service) [3 / 2]
     (embedding_text mail_a) (metadata_of mail_a) (id_email mail_a)
     = Inr [(''A'', [3 / 2], embedding_text mail_a, metadata_of mail_a)]"
    by (simp add: mem_backend_def mem_add_def empty_service_def mail_fields)
  have same: "picky_encode (embedding_text mail_a) = mem_encode (embedding_text mail_a)"
    by (simp add: picky_encode_def embedding_text_def mail_a_def mail_def)
  from embedding_text_shared [of mail_long mem_encode mem_encode mem_backend empty_service
      default_threshold 0 "[]" "[]"] len
  have "length (embedding_text mail_long) = 2000 + 2 + 10"
    and "take 2000 (embedding_text mail_long) = subject mail_long"
    by simp_all
  moreover from embedding_text_shared [of mail_a mem_encode mem_encode mem_backend
      empty_service default_threshold 0 "[3 / 2]"
      "[(''A'', [3 / 2], embedding_text mail_a, metadata_of mail_a)]"]
    enc add
  have "add_email mem_backend empty_service mail_a =
     empty_service\<lparr>world := [(''A'', [3 / 2], embedding_text mail_a, metadata_of mail_a)]\<rparr>"
    by blast
  moreover from embedding_text_shared [of mail_a picky_encode mem_encode mem_backend
      line_service default_threshold 10 "[]" "[]"] same
  have "find_similar_emails (mem_backend\<lparr>encode := picky_encode\<rparr>) line_service mail_a
       default_threshold 10 =
     find_similar_emails (mem_backend\<lparr>encode := mem_encode\<rparr>) line_service mail_a
       default_threshold 10"
    by blast
  moreover from embedding_text_shared [of mail_a mem_encode mem_encode mem_backend
      line_service default_threshold 10 "[]" "[]"] found
  have "\<exists>u r. encode mem_backend (embedding_text mail_a) = Inr u \<and>
      coll_query mem_backend (world line_service) (collection line_service) u 10 = Inr r"
    by blast
  ultimately show ?thesis using enc add same found by blast
qed

theorem embedding_text_long_subject_counterexample:
  "length (subject mail_long @ body mail_long) = 2010 \<and>
   length (embedding_text mail_long) = 2012 \<and>
   \<not> length (embedding_text mail_long) \<le> 1000 + 2 \<and>
   embedding_text mail_long \<noteq> take 1000 (subject mail_long @ body mail_long)"
proof -
  have "length (subject mail_long @ body mail_long) = 2010"
    by (simp add: mail_long_def mail_def)
  moreover have "embedding_text mail_long \<noteq> take 1000 (subject mail_long @ body mail_long)"
  proof
    assume "embedding_text mail_long = take 1000 (subject mail_long @ body mail_long)"
    then have "length (embedding_text mail_long) =
        length (take 1000 (subject mail_long @ body mail_long))"
      by simp
    with long_text show False
      by (simp add: mail_long_def mail_def)
  qed
  ultimately show ?thesis using long_text by simp
qed

text \<open>
  C7. Every group returned by \<^verbatim>\<open>detect_duplicates\<close> has as many scores as
  members and at least one member, and members and scores, paired position by
  position, are the matches that \<^verbatim>\<open>find_similar_emails\<close> returned for an email of
  the batch whose id is the group's primary, in the order returned.
\<close>

theorem detect_duplicates_members_scores:
  assumes "g \<in> set (detect_duplicates be s emails t)"
  shows "length (duplicate_ids g) = length (similarity_scores g) \<and>
         duplicate_ids g \<noteq> [] \<and>
         (\<exists>e \<in> set emails. id_email e = primary_email_id g \<and>
            zip (duplicate_ids g) (similarity_scores g) = find_similar_emails be s e t 10)"
proof -
  from detect_duplicates_groups [OF assms] obtain e where
    e: "e \<in> set emails" "find_similar_emails be s e t 10 \<noteq> []"
       "g = make_group e (find_similar_emails be s e t 10)"
    by blast
  let ?sim = "find_similar_emails be s e t 10"
  have fields: "primary_email_id g = id_email e" "duplicate_ids g = map fst ?sim"
    "similarity_scores g = map snd ?sim"
    by (simp_all add: e(3) make_group_def)
  have "length (duplicate_ids g) = length (similarity_scores g)"
    by (simp add: fields)
  moreover have "duplicate_ids g \<noteq> []"
    using e(2) by (simp add: fields)
  moreover have "zip (duplicate_ids g) (similarity_scores g) = ?sim"
    by (simp add: fields zip_map_fst_snd)
  ultimately show ?thesis
    using e(1) fields(1) by auto
qed

theorem detect_duplicates_members_scores_witness:
  "make_group mail_a [(''B'', Fin (7 / 8))]
     \<in> set (detect_duplicates mem_backend line_service [mail_a, mail_b, mail_c] default_threshold) \<and>
   length (duplicate_ids (make_group mail_a [(''B'', Fin (7 / 8))])) =
     length (similarity_scores (make_group mail_a [(''B'', Fin (7 / 8))])) \<and>
   duplicate_ids (make_group mail_a [(''B'', Fin (7 / 8))]) \<noteq> [] \<and>
   (\<exists>e \<in> set [mail_a, mail_b, mail_c].
      id_email e = primary_email_id (make_group mail_a [(''B'', Fin (7 / 8))]) \<and>
      zip (duplicate_ids (make_group mail_a [(''B'', Fin (7 / 8))]))
          (similarity_scores (make_group mail_a [(''B'', Fin (7 / 8))])) =
        find_similar_emails mem_backend line_service e default_threshold 10)"
proof -
  have mem: "make_group mail_a [(''B'', Fin (7 / 8))]
     \<in> set (detect_duplicates mem_backend line_service [mail_a, mail_b, mail_c] default_threshold)"
    by (simp add: line_groups make_group_def mail_fields)
  from detect_duplicates_members_scores [OF mem] mem show ?thesis
    by blast
qed




text \<open>
  C9. In the list returned by \<^verbatim>\<open>detect_duplicates\<close>, the primary of a group is the
  primary of no other returned group, and it occurs neither as primary nor as member
  of any group that precedes it in the list.
\<close>

theorem detect_duplicates_primary_unclaimed:
  assumes "detect_duplicates be s emails t = pre @ g # post"
  shows "primary_email_id g \<notin> primary_email_id ` set (pre @ post) \<and>
         (\<forall>g' \<in> set pre. primary_email_id g \<notin> set (group_ids g'))"
proof -
  have "primaries_fresh {} (pre @ g # post)"
    using detect_duplicates_fresh [of be s emails t] by (simp add: assms)
  from primaries_fresh_split [OF this] show ?thesis
    by (auto simp: group_ids_def)
qed

theorem detect_duplicates_primary_unclaimed_witness:
  "detect_duplicates mem_backend line_service [mail_a, mail_b, mail_c] default_threshold =
     [make_group mail_a [(''B'', Fin (7 / 8))]] @ make_group mail_c [(''B'', Fin (7 / 8))] # [] \<and>
   primary_email_id (make_group mail_c [(''B'', Fin (7 / 8))])
     \<notin> primary_email_id ` set ([make_group mail_a [(''B'', Fin (7 / 8))]] @ []) \<and>
   primary_email_id (make_group mail_c [(''B'', Fin (7 / 8))])
     \<notin> set (group_ids (make_group mail_a [(''B'', Fin (7 / 8))]))"
proof -
  have eq: "detect_duplicates mem_backend line_service [mail_a, mail_b, mail_c] default_threshold =
     [make_group mail_a [(''B'', Fin (7 / 8))]] @ make_group mail_c [(''B'', Fin (7 / 8))] # []"
    by (simp add: line_groups make_group_def mail_fields)
  from detect_duplicates_primary_unclaimed [OF eq] eq show ?thesis by simp
qed

text \<open>
  C10. In every group returned by \<^verbatim>\<open>detect_duplicates\<close>, \<^verbatim>\<open>count\<close> is the
  number of member ids plus one.
\<close>

theorem detect_duplicates_count:
  assumes "g \<in> set (detect_duplicates be s emails t)"
  shows "count g = int (length (duplicate_ids g)) + 1"
proof -
  from detect_duplicates_groups [OF assms] obtain e where
    "g = make_group e (find_similar_emails be s e t 10)"
    by blast
  then show ?thesis by (simp add: make_group_def)
qed

theorem detect_duplicates_count_witness:
  "make_group mail_c [(''B'', Fin (7 / 8))]
     \<in> set (detect_duplicates mem_backend line_service [mail_a, mail_b, mail_c] default_threshold) \<and>
   count (make_group mail_c [(''B'', Fin (7 / 8))]) = 2 \<and>
   length (duplicate_ids (make_group mail_c [(''B'', Fin (7 / 8))])) = 1"
proof -
  have mem: "make_group mail_c [(''B'', Fin (7 / 8))]
     \<in> set (detect_duplicates mem_backend line_service [mail_a, mail_b, mail_c] default_threshold)"
    by (simp add: line_groups make_group_def mail_fields)
  from detect_duplicates_count [OF mem] mem show ?thesis
    by (simp add: make_group_def)
qed

end
